theory Spec2Isabelle
  imports Complex_Main "HOL-Library.FSet"
begin

section \<open>Ant colony optimisation for the 3D travelling salesman (Laba3)\<close>

text \<open>
  The development embeds the heuristic of \<^verbatim>\<open>Laba3/task 3_2.py\<close> (the interactive variant)
  and \<^verbatim>\<open>Laba3/task 3_3.py\<close> (the headless variant).

  Python floats are modelled as exact reals; \<^verbatim>\<open>float('inf')\<close> is the extra value
  \<open>PInf\<close> of \<open>xfloat\<close>.  Rounding, overflow and NaN are therefore outside the model.
  Point indices are natural numbers (they always come from \<^verbatim>\<open>range(n)\<close>), dictionaries
  keyed by index pairs are maps, and every Python exception is a value of \<open>error\<close>.
\<close>

datatype error = KeyError | ZeroDivisionError | ValueError | IndexError | ComplexValue

type_synonym point = "real \<times> real \<times> real"

type_synonym table = "nat \<times> nat \<rightharpoonup> real"

subsection \<open>Distances\<close>

text \<open>\<^verbatim>\<open>cached_distance\<close> of task 3\_3 (the \<^verbatim>\<open>lru_cache\<close> memoises a pure function and is
  invisible); the body of the inner loop of \<^verbatim>\<open>generate_edges\<close> of task 3\_2 is the same
  expression on \<^verbatim>\<open>points[i]\<close> and \<^verbatim>\<open>points[j]\<close>.\<close>

definition cached_distance :: "point \<Rightarrow> point \<Rightarrow> real" where
  "cached_distance p1 p2 =
     (let dx = fst p1 - fst p2;
          dy = fst (snd p1) - fst (snd p2);
          dz = snd (snd p1) - snd (snd p2)
      in sqrt (dx * dx + dy * dy + dz * dz))"

text \<open>task 3\_3, \<^verbatim>\<open>build_distance_matrix_cached\<close>: two nested \<^verbatim>\<open>for ... in range(n)\<close> loops
  storing into a dictionary.\<close>

definition build_distance_matrix_cached :: "point list \<Rightarrow> table" where
  "build_distance_matrix_cached points =
     (let n = length points in
      fold (\<lambda>i distances.
              fold (\<lambda>j distances.
                      if i \<noteq> j
                      then distances((i, j) \<mapsto> cached_distance (points ! i) (points ! j))
                      else distances)
                   [0..<n] distances)
           [0..<n] Map.empty)"

text \<open>task 3\_2, \<^verbatim>\<open>generate_edges\<close>: a generator of triples \<^verbatim>\<open>(i, j, dist)\<close>, here the list
  of what it yields, in order.\<close>

definition generate_edges :: "point list \<Rightarrow> (nat \<times> nat \<times> real) list" where
  "generate_edges points =
     (let n = length points in
      concat (map (\<lambda>i. concat (map (\<lambda>j. if i \<noteq> j
                                           then [(i, j, cached_distance (points ! i) (points ! j))]
                                           else [])
                                    [0..<n]))
                  [0..<n]))"

text \<open>task 3\_2, \<^verbatim>\<open>visualize_optimization\<close>, line 207: the dictionary comprehension
  \<^verbatim>\<open>{ (i, j): dist for i, j, dist in generate_edges(points) }\<close> (a later triple
  overwrites an earlier one with the same key).\<close>

definition edge_table :: "(nat \<times> nat \<times> real) list \<Rightarrow> table" where
  "edge_table edges = fold (\<lambda>(i, j, dist) distances. distances((i, j) \<mapsto> dist)) edges Map.empty"

subsection \<open>Floats with infinity\<close>

text \<open>The only infinite float the code creates is \<^verbatim>\<open>float('inf')\<close>: the default of
  \<^verbatim>\<open>distances.get\<close> in the length of a path, and the initial best length.\<close>

datatype xfloat = Fin real | PInf

fun xadd :: "xfloat \<Rightarrow> xfloat \<Rightarrow> xfloat" where
  "xadd (Fin a) (Fin b) = Fin (a + b)"
| "xadd _ _ = PInf"

fun xless :: "xfloat \<Rightarrow> xfloat \<Rightarrow> bool" where
  "xless (Fin a) (Fin b) = (a < b)"
| "xless (Fin a) PInf = True"
| "xless PInf _ = False"

fun xle :: "xfloat \<Rightarrow> xfloat \<Rightarrow> bool" where
  "xle (Fin a) (Fin b) = (a \<le> b)"
| "xle _ PInf = True"
| "xle PInf (Fin b) = False"

text \<open>\<^verbatim>\<open>q / length\<close>, evaluated by the code only under the guard \<^verbatim>\<open>length > 0\<close>;
  a finite amount over infinity is \<^verbatim>\<open>0.0\<close>.\<close>

fun fdiv :: "real \<Rightarrow> xfloat \<Rightarrow> real" where
  "fdiv q (Fin l) = q / l"
| "fdiv q PInf = 0"

text \<open>Python's \<^verbatim>\<open>x ** y\<close> on floats, in exact arithmetic.  A zero base with a negative
  exponent raises; a negative base with a fractional exponent yields a complex number,
  which is no weight any more (\<^verbatim>\<open>random.choices\<close> cannot compare it): the model stops
  there with \<open>ComplexValue\<close>.\<close>

definition float_pow :: "real \<Rightarrow> real \<Rightarrow> error + real" where
  "float_pow x y =
     (if y \<in> \<int> then
        (if 0 \<le> y then Inr (x ^ nat \<lfloor>y\<rfloor>)
         else if x = 0 then Inl ZeroDivisionError
         else Inr (1 / x ^ nat \<lfloor>- y\<rfloor>))
      else if 0 < x then Inr (x powr y)
      else if x = 0 then (if y < 0 then Inl ZeroDivisionError else Inr 0)
      else Inl ComplexValue)"

subsection \<open>Path length\<close>

text \<open>task 3\_2, \<^verbatim>\<open>path_length\<close>; \<^verbatim>\<open>compute_path_length\<close> of task 3\_3 is the same loop
  over the same dictionary.\<close>

definition path_length :: "nat list \<Rightarrow> table \<Rightarrow> xfloat" where
  "path_length path distances =
     (let n = length path in
      fold (\<lambda>i total.
              let a = path ! i; b = path ! ((i + 1) mod n)
              in xadd total (case distances (a, b) of Some d \<Rightarrow> Fin d | None \<Rightarrow> PInf))
           [0..<n] (Fin 0))"

subsection \<open>Pheromones\<close>

text \<open>task 3\_2, \<^verbatim>\<open>initialize_pheromones\<close>; lines 153--157 of task 3\_3 are the same loops.\<close>

definition initialize_pheromones :: "nat \<Rightarrow> table" where
  "initialize_pheromones n =
     fold (\<lambda>i pheromone.
             fold (\<lambda>j pheromone. if i \<noteq> j then pheromone((i, j) \<mapsto> 0.1) else pheromone)
                  [0..<n] pheromone)
          [0..<n] Map.empty"

text \<open>\<^verbatim>\<open>for key in pheromone: pheromone[key] *= (1 - evaporation)\<close>\<close>

definition evaporate :: "table \<Rightarrow> real \<Rightarrow> table" where
  "evaporate pheromone evaporation = (\<lambda>key. map_option (\<lambda>v. v * (1 - evaporation)) (pheromone key))"

text \<open>The reinforcement loop, lines 175--181 of task 3\_2 and 227--232 of task 3\_3.\<close>

definition reinforce :: "table \<Rightarrow> nat list \<Rightarrow> real \<Rightarrow> xfloat \<Rightarrow> table" where
  "reinforce pheromone best_path q len =
     (if xless (Fin 0) len then
        (let n = length best_path in
         fold (\<lambda>i pheromone.
                 let a = best_path ! i; b = best_path ! ((i + 1) mod n)
                 in (case pheromone (a, b) of
                       Some v \<Rightarrow> pheromone((a, b) \<mapsto> v + fdiv q len)
                     | None \<Rightarrow> pheromone))
              [0..<n] pheromone)
      else pheromone)"

text \<open>task 3\_2, \<^verbatim>\<open>update_pheromones\<close>.\<close>

definition update_pheromones :: "table \<Rightarrow> nat list \<Rightarrow> table \<Rightarrow> real \<Rightarrow> real \<Rightarrow> table" where
  "update_pheromones pheromone best_path distances evaporation q =
     reinforce (evaporate pheromone evaporation) best_path q (path_length best_path distances)"

subsection \<open>Transition weights\<close>

text \<open>task 3\_2, \<^verbatim>\<open>calculate_transition_prob\<close>.  The \<^verbatim>\<open>except KeyError\<close> catches a key
  missing from either dictionary; the division and the powers stand inside the \<^verbatim>\<open>try\<close>
  but raise other exceptions, which pass through.\<close>

definition calculate_transition_prob ::
  "table \<Rightarrow> table \<Rightarrow> nat \<Rightarrow> nat \<Rightarrow> real \<Rightarrow> real \<Rightarrow> error + real" where
  "calculate_transition_prob pheromone distances current next_node alpha beta =
     (if current = next_node then Inr 0
      else (case pheromone (current, next_node) of
              None \<Rightarrow> Inr 0
            | Some tau \<Rightarrow>
                (case distances (current, next_node) of
                   None \<Rightarrow> Inr 0
                 | Some d \<Rightarrow>
                     if d = 0 then Inl ZeroDivisionError
                     else (case float_pow tau alpha of
                             Inl e \<Rightarrow> Inl e
                           | Inr a \<Rightarrow>
                               (case float_pow (1 / d) beta of
                                  Inl e \<Rightarrow> Inl e
                                | Inr b \<Rightarrow> Inr (a * b))))))"

text \<open>task 3\_3, lines 183--188: the same weight written inline, with
  \<^verbatim>\<open>pheromone.get(..., 0.1)\<close> and an unguarded \<^verbatim>\<open>distances[...]\<close>.\<close>

definition inline_prob ::
  "table \<Rightarrow> table \<Rightarrow> real \<Rightarrow> real \<Rightarrow> nat \<Rightarrow> nat \<Rightarrow> error + real" where
  "inline_prob pheromone distances alpha beta current node =
     (if current = node then Inr 0
      else (let tau = (case pheromone (current, node) of Some t \<Rightarrow> t | None \<Rightarrow> 0.1)
            in (case distances (current, node) of
                  None \<Rightarrow> Inl KeyError
                | Some d \<Rightarrow>
                    if d = 0 then Inl ZeroDivisionError
                    else (case float_pow tau alpha of
                            Inl e \<Rightarrow> Inl e
                          | Inr a \<Rightarrow>
                              (case float_pow (1 / d) beta of
                                 Inl e \<Rightarrow> Inl e
                               | Inr b \<Rightarrow> Inr (a * b))))))"


text \<open>The \<^verbatim>\<open>for node in unvisited\<close> loop that fills \<^verbatim>\<open>probs\<close>; the first weight that
  raises ends it.\<close>

fun transition_probs :: "(nat \<Rightarrow> error + real) \<Rightarrow> nat list \<Rightarrow> error + real list" where
  "transition_probs weight [] = Inr []"
| "transition_probs weight (node # rest) =
     (case weight node of
        Inl e \<Rightarrow> Inl e
      | Inr prob \<Rightarrow>
          (case transition_probs weight rest of
             Inl e \<Rightarrow> Inl e
           | Inr probs \<Rightarrow> Inr (prob # probs)))"

subsection \<open>The random source\<close>

text \<open>The module-level generator of \<^verbatim>\<open>random\<close> is threaded through as an explicit
  stream of draws.  \<^verbatim>\<open>randint(0, n - 1)\<close> and \<^verbatim>\<open>choice\<close> return the element the draw
  points at.  \<^verbatim>\<open>choices(population, weights=w)[0]\<close> returns
  \<^verbatim>\<open>population[bisect(cum_weights, random() * total, 0, len - 1)]\<close>, an element of the
  population at an index the weights and the draw determine together; the model lets
  the draw alone determine the index, so every result Python can produce is the result
  of the model on some source.\<close>

type_synonym random_source = "nat \<Rightarrow> nat"

definition randint0 :: "nat \<Rightarrow> random_source \<Rightarrow> error + nat \<times> random_source" where
  "randint0 n r = (if n = 0 then Inl ValueError else Inr (r 0 mod n, \<lambda>k. r (Suc k)))"

definition choice :: "nat list \<Rightarrow> random_source \<Rightarrow> error + nat \<times> random_source" where
  "choice population r =
     (if population = [] then Inl IndexError
      else Inr (population ! (r 0 mod length population), \<lambda>k. r (Suc k)))"

definition choices :: "nat list \<Rightarrow> real list \<Rightarrow> random_source \<Rightarrow> error + nat \<times> random_source" where
  "choices population weights r =
     (if population = [] then Inl IndexError
      else if sum_list weights \<le> 0 then Inl ValueError
      else Inr (population ! (r 0 mod length population), \<lambda>k. r (Suc k)))"

subsection \<open>Building one tour\<close>

text \<open>The \<^verbatim>\<open>while len(visited) < n\<close> loop of \<^verbatim>\<open>construct_path\<close> (task 3\_2, lines 133--153)
  and of the ant loop of task 3\_3 (lines 174--201).  The two differ only in the
  expression that computes \<^verbatim>\<open>prob\<close>, here the parameter \<open>weight\<close>.  \<open>passes\<close> is not a
  variable of the code: it counts the executions of the loop body.\<close>

function construct_loop ::
  "(nat \<Rightarrow> nat \<Rightarrow> error + real) \<Rightarrow> nat \<Rightarrow> nat fset \<Rightarrow> nat list \<Rightarrow> nat \<Rightarrow> nat \<Rightarrow> random_source
     \<Rightarrow> error + nat list \<times> nat \<times> random_source" where
  "construct_loop weight n visited path current passes r =
     (if fcard visited < n then
        (let unvisited = filter (\<lambda>i. i |\<notin>| visited) [0..<n] in
         if unvisited = [] then Inr (path, passes, r)
         else (case transition_probs (weight current) unvisited of
                 Inl e \<Rightarrow> Inl e
               | Inr probs \<Rightarrow>
                   (let total = sum_list probs in
                    case (if total = 0 then choice unvisited r
                          else choices unvisited (map (\<lambda>p. p / total) probs) r) of
                      Inl e \<Rightarrow> Inl e
                    | Inr (next_node, r') \<Rightarrow>
                        construct_loop weight n (finsert next_node visited) (path @ [next_node])
                          next_node (Suc passes) r')))
      else Inr (path, passes, r))"
  by pat_completeness auto

lemma choice_member: "choice population r = Inr (x, r') \<Longrightarrow> x \<in> set population"
  by (auto simp: choice_def split: if_splits)

lemma choices_member: "choices population ws r = Inr (x, r') \<Longrightarrow> x \<in> set population"
  by (auto simp: choices_def split: if_splits)

lemma unvisited_shrinks:
  assumes "x \<in> set (filter (\<lambda>i. i |\<notin>| visited) [0..<n])"
  shows "length (filter (\<lambda>i. i |\<notin>| finsert x visited) [0..<n])
           < length (filter (\<lambda>i. i |\<notin>| visited) [0..<n])"
proof -
  have "length (filter (\<lambda>i. i |\<notin>| finsert x visited) xs) < length (filter (\<lambda>i. i |\<notin>| visited) xs)"
    if "x \<in> set (filter (\<lambda>i. i |\<notin>| visited) xs)" for xs
    using that
  proof (induction xs)
    case Nil
    then show ?case by simp
  next
    case (Cons y ys)
    have le: "length (filter (\<lambda>i. i |\<notin>| finsert x visited) ys) \<le> length (filter (\<lambda>i. i |\<notin>| visited) ys)"
      by (induction ys) auto
    show ?case
    proof (cases "x \<in> set (filter (\<lambda>i. i |\<notin>| visited) ys)")
      case True
      with Cons.IH show ?thesis by auto
    next
      case False
      with Cons.prems have "y = x" "x |\<notin>| visited" by (auto split: if_splits)
      with le show ?thesis by auto
    qed
  qed
  with assms show ?thesis by blast
qed

termination construct_loop
proof (relation "measure (\<lambda>(weight, n, visited, path, current, passes, r).
                    length (filter (\<lambda>i. i |\<notin>| visited) [0..<n]))", goal_cases)
  case 1
  then show ?case by simp
next
  case (2 weight n visited path current passes r unvisited probs total x next_node r')
  then have "next_node \<in> set (filter (\<lambda>i. i |\<notin>| visited) [0..<n])"
    by (auto dest: choice_member choices_member split: if_splits)
  then show ?case
    using unvisited_shrinks [of next_node visited n] by simp
qed

declare construct_loop.simps [simp del]

text \<open>task 3\_2, \<^verbatim>\<open>construct_path\<close>, which calls \<^verbatim>\<open>calculate_transition_prob\<close> with its
  default exponents \<^verbatim>\<open>alpha=1.0\<close>, \<^verbatim>\<open>beta=2.0\<close>.  \<open>construct_path_passes\<close> also reports
  the number of passes of the loop.\<close>

definition construct_path_passes ::
  "table \<Rightarrow> table \<Rightarrow> nat \<Rightarrow> random_source \<Rightarrow> error + nat list \<times> nat \<times> random_source" where
  "construct_path_passes pheromone distances n r =
     (case randint0 n r of
        Inl e \<Rightarrow> Inl e
      | Inr (current, r') \<Rightarrow>
          construct_loop (\<lambda>c node. calculate_transition_prob pheromone distances c node 1 2)
            n {|current|} [current] current 0 r')"

definition construct_path ::
  "table \<Rightarrow> table \<Rightarrow> nat \<Rightarrow> random_source \<Rightarrow> error + nat list \<times> random_source" where
  "construct_path pheromone distances n r =
     (case construct_path_passes pheromone distances n r of
        Inl e \<Rightarrow> Inl e
      | Inr (path, passes, r') \<Rightarrow> Inr (path, r'))"

text \<open>task 3\_3, lines 167--201: the body of \<^verbatim>\<open>for ant in range(ants)\<close> up to the finished
  \<^verbatim>\<open>path\<close>.\<close>

definition ant_path ::
  "table \<Rightarrow> table \<Rightarrow> nat \<Rightarrow> real \<Rightarrow> real \<Rightarrow> random_source \<Rightarrow> error + nat list \<times> random_source" where
  "ant_path pheromone distances n alpha beta r =
     (case randint0 n r of
        Inl e \<Rightarrow> Inl e
      | Inr (current, r') \<Rightarrow>
          (case construct_loop (inline_prob pheromone distances alpha beta)
                  n {|current|} [current] current 0 r' of
             Inl e \<Rightarrow> Inl e
           | Inr (path, passes, r'') \<Rightarrow> Inr (path, r'')))"

subsection \<open>One iteration and the whole run\<close>

text \<open>\<^verbatim>\<open>for ant in range(ants): ...; all_paths.append(path)\<close>, and the list comprehension
  \<^verbatim>\<open>[construct_path(...) for _ in range(ants)]\<close> of task 3\_2.\<close>

fun build_paths ::
  "(random_source \<Rightarrow> error + nat list \<times> random_source) \<Rightarrow> nat \<Rightarrow> random_source
     \<Rightarrow> error + nat list list \<times> random_source" where
  "build_paths ant 0 r = Inr ([], r)"
| "build_paths ant (Suc k) r =
     (case ant r of
        Inl e \<Rightarrow> Inl e
      | Inr (path, r') \<Rightarrow>
          (case build_paths ant k r' of
             Inl e \<Rightarrow> Inl e
           | Inr (paths, r'') \<Rightarrow> Inr (path # paths, r'')))"

text \<open>Python's \<^verbatim>\<open>min(xs, key=f)\<close>: the first element whose key is minimal;
  \<^verbatim>\<open>ValueError\<close> on an empty list.\<close>

fun min_by :: "('a \<Rightarrow> xfloat) \<Rightarrow> 'a list \<Rightarrow> error + 'a" where
  "min_by key [] = Inl ValueError"
| "min_by key (x # xs) = Inr (fold (\<lambda>y best. if xless (key y) (key best) then y else best) xs x)"

record colony =
  pheromone :: table
  best_path_overall :: "nat list option"
  best_length_overall :: xfloat

text \<open>task 3\_3, the body of \<^verbatim>\<open>for iteration in range(iterations)\<close>, lines 163--232.\<close>

definition iteration ::
  "table \<Rightarrow> nat \<Rightarrow> int \<Rightarrow> real \<Rightarrow> real \<Rightarrow> real \<Rightarrow> real \<Rightarrow> colony \<Rightarrow> random_source
     \<Rightarrow> error + colony \<times> random_source" where
  "iteration distances n ants alpha beta evaporation q s r =
     (case build_paths (ant_path (pheromone s) distances n alpha beta) (nat ants) r of
        Inl e \<Rightarrow> Inl e
      | Inr (all_paths, r') \<Rightarrow>
          (case min_by (\<lambda>path. path_length path distances) all_paths of
             Inl e \<Rightarrow> Inl e
           | Inr current_best_path \<Rightarrow>
               (let current_best_length = path_length current_best_path distances;
                    s1 = (if xless current_best_length (best_length_overall s)
                          then s\<lparr>best_length_overall := current_best_length,
                                 best_path_overall := Some current_best_path\<rparr>
                          else s)
                in Inr (s1\<lparr>pheromone :=
                              reinforce (evaporate (pheromone s) evaporation)
                                current_best_path q current_best_length\<rparr>, r'))))"

fun run_iterations ::
  "(colony \<Rightarrow> random_source \<Rightarrow> error + colony \<times> random_source) \<Rightarrow> nat \<Rightarrow> colony \<Rightarrow> random_source
     \<Rightarrow> error + colony \<times> random_source" where
  "run_iterations step 0 s r = Inr (s, r)"
| "run_iterations step (Suc k) s r =
     (case step s r of
        Inl e \<Rightarrow> Inl e
      | Inr (s', r') \<Rightarrow> run_iterations step k s' r')"

text \<open>task 3\_3, \<^verbatim>\<open>ant_colony_optimization_simple\<close>.  Besides the returned pair the model
  hands back the random source, so that the draws consumed are visible.\<close>

definition ant_colony_optimization_simple ::
  "point list \<Rightarrow> int \<Rightarrow> int \<Rightarrow> real \<Rightarrow> real \<Rightarrow> real \<Rightarrow> real \<Rightarrow> random_source
     \<Rightarrow> error + (nat list option \<times> xfloat) \<times> random_source" where
  "ant_colony_optimization_simple points iterations ants alpha beta evaporation q r =
     (let n = length points;
          distances = build_distance_matrix_cached points;
          s0 = \<lparr>pheromone = initialize_pheromones n,
                best_path_overall = None,
                best_length_overall = PInf\<rparr>
      in (case run_iterations (iteration distances n ants alpha beta evaporation q)
                 (nat iterations) s0 r of
            Inl e \<Rightarrow> Inl e
          | Inr (s, r') \<Rightarrow> Inr ((best_path_overall s, best_length_overall s), r')))"


subsection \<open>Notions used to state the properties\<close>

text \<open>The ordered pairs the reinforcement loop visits: \<^verbatim>\<open>(path[i], path[(i + 1) % n])\<close>
  for \<^verbatim>\<open>i in range(n)\<close>, the last one being the wrap-around edge.\<close>

definition tour_edges :: "nat list \<Rightarrow> (nat \<times> nat) list" where
  "tour_edges path = map (\<lambda>i. (path ! i, path ! ((i + 1) mod length path))) [0..<length path]"

text \<open>A table over \<open>n\<close> points is positive when it holds an entry exactly for the ordered
  pairs of distinct indices below \<open>n\<close>, and every entry is strictly positive.\<close>

definition positive_table :: "nat \<Rightarrow> table \<Rightarrow> bool" where
  "positive_table n ph =
     (\<forall>i j. case ph (i, j) of
              None \<Rightarrow> \<not> (i < n \<and> j < n \<and> i \<noteq> j)
            | Some v \<Rightarrow> i < n \<and> j < n \<and> i \<noteq> j \<and> 0 < v)"

section \<open>Properties of the distance table\<close>

lemma cached_distance_sym: "cached_distance p q = cached_distance q p"
proof -
  have sq: "(a - b) * (a - b) = (b - a) * (b - a)" for a b :: real
    by (simp add: algebra_simps)
  show ?thesis
    unfolding cached_distance_def Let_def
    by (simp only: sq [of "fst p" "fst q"] sq [of "fst (snd p)" "fst (snd q)"]
        sq [of "snd (snd p)" "snd (snd q)"])
qed

lemma inner_fold_lookup:
  "fold (\<lambda>j (m::table). if i \<noteq> j then m((i, j) \<mapsto> f j) else m) js m0 (a, b) =
     (if a = i \<and> b \<in> set js \<and> i \<noteq> b then Some (f b) else m0 (a, b))"
  by (induction js arbitrary: m0) auto

lemma outer_fold_lookup:
  "fold (\<lambda>i (m::table). fold (\<lambda>j m. if i \<noteq> j then m((i, j) \<mapsto> f i j) else m) js m) is m0 (a, b) =
     (if a \<in> set is \<and> b \<in> set js \<and> a \<noteq> b then Some (f a b) else m0 (a, b))"
proof (induction "is" arbitrary: m0)
  case Nil
  then show ?case by simp
next
  case (Cons i "is")
  show ?case
    by (auto simp: Cons.IH inner_fold_lookup)
qed

lemma build_distance_matrix_cached_lookup:
  "build_distance_matrix_cached points (i, j) =
     (if i < length points \<and> j < length points \<and> i \<noteq> j
      then Some (cached_distance (points ! i) (points ! j)) else None)"
  unfolding build_distance_matrix_cached_def Let_def
  by (simp add: outer_fold_lookup [where f = "\<lambda>i j. cached_distance (points ! i) (points ! j)"])

lemma fold_concat: "fold f (concat xss) = fold (fold f) xss"
  by (induction xss) auto

lemma fold_if_single: "fold f (if c then [x] else []) = (if c then f x else id)"
  by simp

lemma edge_table_generate_edges:
  "edge_table (generate_edges points) = build_distance_matrix_cached points"
proof -
  have push: "(if c then g else id) = (\<lambda>m. if c then g m else m)" for c and g :: "table \<Rightarrow> table"
    by auto
  show ?thesis
    unfolding edge_table_def generate_edges_def build_distance_matrix_cached_def Let_def
    by (simp add: fold_concat fold_map comp_def fold_if_single push cong: if_cong)
qed

text \<open>
  Claim C9.  For any list of points and any two distinct valid indices \<open>i\<close> and \<open>j\<close>, both
  distance tables (the one of task 3\_3 and the one task 3\_2 builds from
  \<^verbatim>\<open>generate_edges\<close>) hold an entry for \<open>(i, j)\<close> and for \<open>(j, i)\<close>, the two entries are the
  same number, the Euclidean distance of the two points, and neither table holds an
  entry for a pair \<open>(i, i)\<close>.
\<close>

theorem distance_table_symmetric:
  "(i < length points \<and> j < length points \<and> i \<noteq> j \<longrightarrow>
      (\<exists>d. build_distance_matrix_cached points (i, j) = Some d
          \<and> build_distance_matrix_cached points (j, i) = Some d
          \<and> edge_table (generate_edges points) (i, j) = Some d
          \<and> edge_table (generate_edges points) (j, i) = Some d
          \<and> d = cached_distance (points ! i) (points ! j)))
   \<and> build_distance_matrix_cached points (i, i) = None
   \<and> edge_table (generate_edges points) (i, i) = None"
  by (simp add: edge_table_generate_edges build_distance_matrix_cached_lookup
      cached_distance_sym [of "points ! j" "points ! i"])

theorem distance_table_symmetric_witness:
  "build_distance_matrix_cached [(0, 0, 0), (1, 0, 0)] (0, 1) = Some 1
   \<and> build_distance_matrix_cached [(0, 0, 0), (1, 0, 0)] (1, 0) = Some 1
   \<and> edge_table (generate_edges [(0, 0, 0), (1, 0, 0)]) (0, 1) = Some 1
   \<and> edge_table (generate_edges [(0, 0, 0), (1, 0, 0)]) (1, 0) = Some 1
   \<and> build_distance_matrix_cached [(0, 0, 0), (1, 0, 0)] (0, 0) = None"
  using distance_table_symmetric [of 0 "[(0, 0, 0), (1, 0, 0)]" 1]
  by (simp add: cached_distance_def)

section \<open>Properties of the pheromone table\<close>

lemma initialize_pheromones_lookup:
  "initialize_pheromones n (i, j) = (if i < n \<and> j < n \<and> i \<noteq> j then Some 0.1 else None)"
  unfolding initialize_pheromones_def
  by (simp add: outer_fold_lookup [where f = "\<lambda>i j. 0.1"])

lemma reinforce_fold_lookup:
  "fold (\<lambda>i (ph::table).
            (case ph (e i) of Some v \<Rightarrow> ph(e i \<mapsto> v + c) | None \<Rightarrow> ph)) ks start key =
     map_option (\<lambda>v. v + real (count_list (map e ks) key) * c) (start key)"
proof (induction ks arbitrary: start)
  case Nil
  then show ?case by (simp add: option.map_ident)
next
  case (Cons i ks)
  show ?case
    by (cases "start (e i)"; cases "start key")
       (auto simp: Cons.IH algebra_simps)
qed

lemma reinforce_lookup:
  "reinforce ph t q len key =
     (if xless (Fin 0) len
      then map_option (\<lambda>v. v + real (count_list (tour_edges t) key) * fdiv q len) (ph key)
      else ph key)"
  unfolding reinforce_def tour_edges_def Let_def
  using reinforce_fold_lookup [where e = "\<lambda>i. (t ! i, t ! ((i + 1) mod length t))"
      and c = "fdiv q len" and start = ph and key = key and ks = "[0..<length t]"]
  by simp

lemma distinct_tour_edges: "distinct t \<Longrightarrow> distinct (tour_edges t)"
  unfolding tour_edges_def
  by (auto simp: distinct_map inj_on_def nth_eq_iff_index_eq)

lemma count_list_distinct:
  "distinct xs \<Longrightarrow> count_list xs x = (if x \<in> set xs then 1 else 0)"
  by (induction xs) auto

lemma count_tour_edges:
  "distinct t \<Longrightarrow> count_list (tour_edges t) key = (if key \<in> set (tour_edges t) then 1 else 0)"
  using distinct_tour_edges [of t] by (simp add: count_list_distinct)

lemma reverse_not_edge:
  assumes "distinct t" "3 \<le> length t" "(a, b) \<in> set (tour_edges t)"
  shows "(b, a) \<notin> set (tour_edges t)"
proof
  assume "(b, a) \<in> set (tour_edges t)"
  then obtain j where j: "j < length t" "b = t ! j" "a = t ! ((j + 1) mod length t)"
    by (auto simp: tour_edges_def)
  from assms(3) obtain i where i: "i < length t" "a = t ! i" "b = t ! ((i + 1) mod length t)"
    by (auto simp: tour_edges_def)
  have "0 < length t" using i(1) by (cases t) auto
  then have "(i + 1) mod length t < length t" "(j + 1) mod length t < length t"
    by (rule mod_less_divisor)+
  with assms(1) i j have "j = (i + 1) mod length t" "i = (j + 1) mod length t"
    by (simp_all add: nth_eq_iff_index_eq)
  then have "i = ((i + 1) mod length t + 1) mod length t" by simp
  then have "i = (i + 2) mod length t" by (simp add: mod_simps)
  moreover have "(i + 2) mod length t \<noteq> i"
  proof (cases "i + 2 < length t")
    case True
    then show ?thesis by simp
  next
    case False
    with i(1) assms(2) have eq: "(i + 2) mod length t = i + 2 - length t"
      by (simp add: mod_if)
    have "i + 2 - length t \<noteq> i"
      using False i(1) assms(2) by arith
    with eq show ?thesis by simp
  qed
  ultimately show False by simp
qed


lemma evaporate_lookup: "evaporate ph rho key = map_option (\<lambda>v. v * (1 - rho)) (ph key)"
  by (simp add: evaporate_def)

lemma positive_initialize: "positive_table n (initialize_pheromones n)"
  by (simp add: positive_table_def initialize_pheromones_lookup)

lemma positive_evaporate:
  assumes "0 \<le> rho" "rho < 1" "positive_table n ph"
  shows "positive_table n (evaporate ph rho)"
  unfolding positive_table_def
proof (intro allI)
  fix i j
  from assms(3) have "case ph (i, j) of None \<Rightarrow> \<not> (i < n \<and> j < n \<and> i \<noteq> j)
      | Some v \<Rightarrow> i < n \<and> j < n \<and> i \<noteq> j \<and> 0 < v"
    unfolding positive_table_def by blast
  with assms(2) show "case evaporate ph rho (i, j) of None \<Rightarrow> \<not> (i < n \<and> j < n \<and> i \<noteq> j)
      | Some v \<Rightarrow> i < n \<and> j < n \<and> i \<noteq> j \<and> 0 < v"
    by (cases "ph (i, j)") (simp_all add: evaporate_lookup)
qed

lemma fdiv_nonneg: "0 \<le> q \<Longrightarrow> xless (Fin 0) len \<Longrightarrow> 0 \<le> fdiv q len"
  by (cases len) simp_all

lemma positive_reinforce:
  assumes "0 \<le> q" "positive_table n ph"
  shows "positive_table n (reinforce ph t q len)"
  unfolding positive_table_def
proof (intro allI)
  fix i j
  from assms(2) have old: "case ph (i, j) of None \<Rightarrow> \<not> (i < n \<and> j < n \<and> i \<noteq> j)
      | Some v \<Rightarrow> i < n \<and> j < n \<and> i \<noteq> j \<and> 0 < v"
    unfolding positive_table_def by blast
  show "case reinforce ph t q len (i, j) of None \<Rightarrow> \<not> (i < n \<and> j < n \<and> i \<noteq> j)
      | Some v \<Rightarrow> i < n \<and> j < n \<and> i \<noteq> j \<and> 0 < v"
  proof (cases "xless (Fin 0) len")
    case False
    with old show ?thesis by (simp add: reinforce_lookup)
  next
    case True
    with assms(1) have "0 \<le> fdiv q len" by (rule fdiv_nonneg)
    then have "0 \<le> real k * fdiv q len" for k by simp
    then have "0 < v \<Longrightarrow> 0 < v + real k * fdiv q len" for v k
      by (simp add: add_pos_nonneg)
    with old True show ?thesis
      by (cases "ph (i, j)") (simp_all add: reinforce_lookup)
  qed
qed

lemma positive_update_pheromones:
  "0 \<le> rho \<Longrightarrow> rho < 1 \<Longrightarrow> 0 \<le> q \<Longrightarrow> positive_table n ph
     \<Longrightarrow> positive_table n (update_pheromones ph t distances rho q)"
  unfolding update_pheromones_def
  by (intro positive_reinforce positive_evaporate)

lemma positive_fold_update:
  "0 \<le> rho \<Longrightarrow> rho < 1 \<Longrightarrow> 0 \<le> q \<Longrightarrow> positive_table n ph
     \<Longrightarrow> positive_table n (fold (\<lambda>t ph. update_pheromones ph t distances rho q) ts ph)"
  by (induction ts arbitrary: ph) (simp_all add: positive_update_pheromones)

lemma iteration_pheromone:
  assumes "iteration distances n ants alpha beta rho q s r = Inr (s', r')"
  shows "\<exists>best. pheromone s' = reinforce (evaporate (pheromone s) rho) best q (path_length best distances)"
  using assms unfolding iteration_def Let_def
  by (auto split: sum.splits prod.splits if_splits)

lemma positive_iteration:
  assumes "iteration distances n ants alpha beta rho q s r = Inr (s', r')"
    and "0 \<le> rho" "rho < 1" "0 \<le> q" "positive_table n (pheromone s)"
  shows "positive_table n (pheromone s')"
  using iteration_pheromone [OF assms(1)] assms(2-)
  by (auto intro!: positive_reinforce positive_evaporate)

lemma positive_run_iterations:
  assumes "run_iterations (iteration distances n ants alpha beta rho q) k s r = Inr (s', r')"
    and "0 \<le> rho" "rho < 1" "0 \<le> q" "positive_table n (pheromone s)"
  shows "positive_table n (pheromone s')"
  using assms
proof (induction k arbitrary: s r)
  case 0
  then show ?case by simp
next
  case (Suc k)
  from Suc.prems(1) obtain s1 r1 where
    step: "iteration distances n ants alpha beta rho q s r = Inr (s1, r1)"
    and rest: "run_iterations (iteration distances n ants alpha beta rho q) k s1 r1 = Inr (s', r')"
    by (auto split: sum.splits)
  from positive_iteration [OF step Suc.prems(2-5)] have "positive_table n (pheromone s1)" .
  from Suc.IH [OF rest Suc.prems(2-4) this] show ?case .
qed


lemma path_length_two_points:
  "path_length [0, Suc 0] (build_distance_matrix_cached [(0, 0, 0), (1, 0, 0)]) = Fin 2"
  by (simp add: path_length_def build_distance_matrix_cached_lookup cached_distance_def)

text \<open>
  Claim C5.  The initial table holds \<open>0.1\<close> for every ordered pair of distinct indices and
  nothing else; evaporation multiplies every entry by \<open>1 - rho\<close>.  For an evaporation
  rate \<open>0 \<le> rho < 1\<close> and a reinforcement amount \<open>q \<ge> 0\<close>, after any number of
  \<^verbatim>\<open>update_pheromones\<close> calls of task 3\_2 (with any best paths), and after any number of
  iterations of task 3\_3, the table still holds exactly the initial keys and every entry
  is strictly positive.
\<close>

theorem pheromone_stays_positive:
  assumes "0 \<le> rho" and "rho < 1" and "0 \<le> q"
  shows "(\<forall>i j. initialize_pheromones n (i, j) = (if i < n \<and> j < n \<and> i \<noteq> j then Some 0.1 else None))
       \<and> (\<forall>ph key. evaporate ph rho key = map_option (\<lambda>v. v * (1 - rho)) (ph key))
       \<and> positive_table n
            (fold (\<lambda>best_path ph. update_pheromones ph best_path distances rho q) best_paths
               (initialize_pheromones n))
       \<and> (\<forall>s r'. run_iterations (iteration distances n ants alpha beta rho q) k
                     \<lparr>pheromone = initialize_pheromones n, best_path_overall = None,
                      best_length_overall = PInf\<rparr> r = Inr (s, r')
                   \<longrightarrow> positive_table n (pheromone s))"
proof (intro conjI allI impI)
  show "initialize_pheromones n (i, j) = (if i < n \<and> j < n \<and> i \<noteq> j then Some 0.1 else None)" for i j
    by (rule initialize_pheromones_lookup)
  show "evaporate ph rho key = map_option (\<lambda>v. v * (1 - rho)) (ph key)" for ph key
    by (rule evaporate_lookup)
  show "positive_table n
          (fold (\<lambda>best_path ph. update_pheromones ph best_path distances rho q) best_paths
             (initialize_pheromones n))"
    using assms by (intro positive_fold_update positive_initialize)
  show "positive_table n (pheromone s)"
    if "run_iterations (iteration distances n ants alpha beta rho q) k
          \<lparr>pheromone = initialize_pheromones n, best_path_overall = None,
           best_length_overall = PInf\<rparr> r = Inr (s, r')" for s r'
    using positive_run_iterations [OF that assms] by (simp add: positive_initialize)
qed

theorem pheromone_stays_positive_witness:
  "positive_table 2
     (fold (\<lambda>best_path ph. update_pheromones ph best_path
              (build_distance_matrix_cached [(0, 0, 0), (1, 0, 0)]) (1 / 10) 100)
        [[0, 1], [1, 0]] (initialize_pheromones 2))
   \<and> update_pheromones (initialize_pheromones 2) [0, 1]
        (build_distance_matrix_cached [(0, 0, 0), (1, 0, 0)]) (1 / 10) 100 (0, 1) = Some (5009 / 100)"
proof -
  have "(0::real) \<le> 1 / 10" "(1::real) / 10 < 1" "(0::real) \<le> 100" by simp_all
  from pheromone_stays_positive [OF this, of 2]
  have "positive_table 2
     (fold (\<lambda>best_path ph. update_pheromones ph best_path
              (build_distance_matrix_cached [(0, 0, 0), (1, 0, 0)]) (1 / 10) 100)
        [[0, 1], [1, 0]] (initialize_pheromones 2))"
    by blast
  moreover have "update_pheromones (initialize_pheromones 2) [0, 1]
        (build_distance_matrix_cached [(0, 0, 0), (1, 0, 0)]) (1 / 10) 100 (0, 1) = Some (5009 / 100)"
    by (simp add: update_pheromones_def reinforce_lookup evaporate_lookup
        initialize_pheromones_lookup path_length_two_points tour_edges_def)
  ultimately show ?thesis by simp
qed

text \<open>
  Claim C4, as amended.  Let \<open>t\<close> be a tour without repeated nodes.  A reinforcement with
  a length \<open>len > 0\<close> adds exactly \<open>q / len\<close> to every entry whose key is a consecutive
  pair of the closed tour (the wrap-around pair included), and leaves every other
  entry as it was.  When the tour has at least three nodes, the reverse \<open>(b, a)\<close> of a
  tour edge \<open>(a, b)\<close> is no tour edge, so it is left as it was.  The same holds for
  \<^verbatim>\<open>update_pheromones\<close>, relative to the evaporated table.
\<close>

theorem reinforcement_targets_tour_edges:
  assumes "distinct t"
  shows "(xless (Fin 0) len \<longrightarrow>
            (\<forall>a b v. (a, b) \<in> set (tour_edges t) \<and> ph (a, b) = Some v
                \<longrightarrow> reinforce ph t q len (a, b) = Some (v + fdiv q len)))
       \<and> (\<forall>key. key \<notin> set (tour_edges t) \<longrightarrow> reinforce ph t q len key = ph key)
       \<and> (3 \<le> length t \<longrightarrow>
            (\<forall>a b. (a, b) \<in> set (tour_edges t)
                \<longrightarrow> (b, a) \<notin> set (tour_edges t) \<and> reinforce ph t q len (b, a) = ph (b, a)))
       \<and> (xless (Fin 0) (path_length t distances) \<longrightarrow>
            (\<forall>a b v. (a, b) \<in> set (tour_edges t) \<and> ph (a, b) = Some v
                \<longrightarrow> update_pheromones ph t distances rho q (a, b)
                      = Some (v * (1 - rho) + fdiv q (path_length t distances))))
       \<and> (\<forall>key. key \<notin> set (tour_edges t)
                \<longrightarrow> update_pheromones ph t distances rho q key = evaporate ph rho key)"
proof -
  have off: "reinforce p t q' l key = p key" if "key \<notin> set (tour_edges t)" for p q' l key
    using that by (simp add: reinforce_lookup option.map_ident)
  have on: "reinforce p t q' l (a, b) = Some (v + fdiv q' l)"
    if "xless (Fin 0) l" "(a, b) \<in> set (tour_edges t)" "p (a, b) = Some v" for p q' l a b v
    using that assms by (simp add: reinforce_lookup count_tour_edges)
  show ?thesis
    using reverse_not_edge [OF assms]
    by (auto simp: off on update_pheromones_def evaporate_lookup)
qed

theorem reinforcement_targets_tour_edges_witness:
  "reinforce (initialize_pheromones 3) [0, 1, 2] 100 (Fin 4) (0, 1) = Some (1 / 10 + 100 / 4)
   \<and> reinforce (initialize_pheromones 3) [0, 1, 2] 100 (Fin 4) (2, 0) = Some (1 / 10 + 100 / 4)
   \<and> reinforce (initialize_pheromones 3) [0, 1, 2] 100 (Fin 4) (1, 0) = Some (1 / 10)
   \<and> reinforce (initialize_pheromones 3) [0, 1, 2] 100 (Fin 4) (0, 2) = Some (1 / 10)"
proof -
  have d: "distinct [0::nat, 1, 2]" by simp
  have l: "xless (Fin 0) (Fin 4)" by simp
  have e: "tour_edges [0, Suc 0, 2] = [(0, Suc 0), (Suc 0, 2), (2, 0)]"
    by (simp add: tour_edges_def upt_rec)
  note T = reinforcement_targets_tour_edges [OF d, of "Fin 4" "initialize_pheromones 3" 100]
  from T l have on: "reinforce (initialize_pheromones 3) [0, 1, 2] 100 (Fin 4) (a, b) = Some (v + fdiv 100 (Fin 4))"
    if "(a, b) \<in> set (tour_edges [0, 1, 2])" "initialize_pheromones 3 (a, b) = Some v" for a b v
    using that by blast
  from T have off: "reinforce (initialize_pheromones 3) [0, 1, 2] 100 (Fin 4) (b, a) = initialize_pheromones 3 (b, a)"
    if "(a, b) \<in> set (tour_edges [0, 1, 2])" for a b
    using that by simp
  have "reinforce (initialize_pheromones 3) [0, 1, 2] 100 (Fin 4) (0, 1) = Some (1 / 10 + fdiv 100 (Fin 4))"
    by (rule on) (simp_all add: e initialize_pheromones_lookup)
  moreover have "reinforce (initialize_pheromones 3) [0, 1, 2] 100 (Fin 4) (2, 0) = Some (1 / 10 + fdiv 100 (Fin 4))"
    by (rule on) (simp_all add: e initialize_pheromones_lookup)
  moreover have "reinforce (initialize_pheromones 3) [0, 1, 2] 100 (Fin 4) (1, 0) = initialize_pheromones 3 (1, 0)"
    by (rule off) (simp add: e)
  moreover have "reinforce (initialize_pheromones 3) [0, 1, 2] 100 (Fin 4) (0, 2) = initialize_pheromones 3 (0, 2)"
    by (rule off) (simp add: e)
  ultimately show ?thesis
    by (simp add: initialize_pheromones_lookup)
qed

text \<open>
  Claim C4 as stated fails for a tour of two nodes: the closed tour \<open>[0, 1]\<close> has the edges
  \<open>(0, 1)\<close> and \<open>(1, 0)\<close>, so the reverse of the edge \<open>(0, 1)\<close> is reinforced as well:
  evaporation alone leaves \<open>0.09\<close> at \<open>(1, 0)\<close>, the update leaves \<open>0.09 + 100 / 2\<close>.
\<close>

theorem reverse_edge_counterexample:
  "(0, 1) \<in> set (tour_edges [0, 1])
   \<and> evaporate (initialize_pheromones 2) (1 / 10) (1, 0) = Some (9 / 100)
   \<and> update_pheromones (initialize_pheromones 2) [0, 1]
        (build_distance_matrix_cached [(0, 0, 0), (1, 0, 0)]) (1 / 10) 100 (1, 0) = Some (5009 / 100)"
  by (simp add: update_pheromones_def reinforce_lookup evaporate_lookup
      initialize_pheromones_lookup path_length_two_points tour_edges_def)

section \<open>Properties of tour construction\<close>

lemma transition_probs_error:
  "transition_probs w xs = Inl e \<Longrightarrow> \<exists>x\<in>set xs. w x = Inl e"
  by (induction xs) (auto split: sum.splits)

lemma transition_probs_success:
  "(\<And>x. x \<in> set xs \<Longrightarrow> \<exists>v. w x = Inr v) \<Longrightarrow> \<exists>ps. transition_probs w xs = Inr ps"
proof (induction xs)
  case Nil
  then show ?case by simp
next
  case (Cons x xs)
  from Cons.prems [of x] obtain v where "w x = Inr v" by auto
  moreover from Cons.IH Cons.prems obtain ps where "transition_probs w xs = Inr ps" by auto
  ultimately show ?case by simp
qed

lemma transition_probs_fails:
  "x \<in> set xs \<Longrightarrow> w x = Inl e \<Longrightarrow> \<exists>e'. transition_probs w xs = Inl e'"
  by (induction xs) (auto split: sum.splits)

lemma sum_list_divide: "sum_list (map (\<lambda>p. p / c) ps) = sum_list ps / (c::real)"
  by (induction ps) (simp_all add: add_divide_distrib)

lemma pick_succeeds:
  assumes "unvisited \<noteq> []"
  shows "\<exists>x r'. (if sum_list probs = 0 then choice unvisited r
                 else choices unvisited (map (\<lambda>p. p / sum_list probs) probs) r) = Inr (x, r')"
  using assms by (simp add: choice_def choices_def sum_list_divide)

lemma pick_member:
  assumes "(if tot = 0 then choice unvisited r
            else choices unvisited (map (\<lambda>p. p / tot) probs) r) = Inr (x, r')"
  shows "x \<in> set unvisited"
  using assms by (auto dest: choice_member choices_member split: if_splits)


lemma construct_loop_succeeds:
  assumes "\<And>c node. c < n \<Longrightarrow> node < n \<Longrightarrow> \<exists>v. weight c node = Inr v"
    and "current < n"
  shows "\<exists>p k r'. construct_loop weight n visited path current passes r = Inr (p, k, r')"
  using assms
proof (induction weight n visited path current passes r rule: construct_loop.induct)
  case (1 weight n visited path current passes r)
  define unvisited where "unvisited = filter (\<lambda>i. i |\<notin>| visited) [0..<n]"
  show ?case
  proof (cases "fcard visited < n \<and> unvisited \<noteq> []")
    case False
    then show ?thesis
      by (auto simp: construct_loop.simps [of weight n visited] unvisited_def [symmetric])
  next
    case True
    have w: "\<exists>v. weight current node = Inr v" if "node \<in> set unvisited" for node
      using that "1.prems" by (auto simp: unvisited_def)
    from transition_probs_success [of unvisited "weight current", OF w] obtain probs where
      probs: "transition_probs (weight current) unvisited = Inr probs" by blast
    from True pick_succeeds obtain x r1 where
      pick: "(if sum_list probs = 0 then choice unvisited r
              else choices unvisited (map (\<lambda>p. p / sum_list probs) probs) r) = Inr (x, r1)"
      by blast
    from pick_member [OF pick] have "x < n" by (simp add: unvisited_def)
    from "1.IH" [OF _ unvisited_def _ probs refl pick refl "1.prems"(1) this] True
    obtain p k r' where
      "construct_loop weight n (finsert x visited) (path @ [x]) x (Suc passes) r1 = Inr (p, k, r')"
      by blast
    with True probs pick show ?thesis
      by (auto simp: construct_loop.simps [of weight n visited] unvisited_def [symmetric])
  qed
qed

lemma construct_loop_error:
  assumes "construct_loop weight n visited path current passes r = Inl e"
  shows "\<exists>c node. weight c node = Inl e"
  using assms
proof (induction weight n visited path current passes r rule: construct_loop.induct)
  case (1 weight n visited path current passes r)
  define unvisited where "unvisited = filter (\<lambda>i. i |\<notin>| visited) [0..<n]"
  from "1.prems" have guard: "fcard visited < n" "unvisited \<noteq> []"
    by (auto simp: construct_loop.simps [of weight n visited] unvisited_def [symmetric]
        split: if_splits)
  show ?case
  proof (cases "transition_probs (weight current) unvisited")
    case (Inl e')
    with "1.prems" guard have "e' = e"
      by (simp add: construct_loop.simps [of weight n visited] unvisited_def [symmetric])
    with Inl transition_probs_error show ?thesis by blast
  next
    case (Inr probs)
    from guard pick_succeeds obtain x r1 where
      pick: "(if sum_list probs = 0 then choice unvisited r
              else choices unvisited (map (\<lambda>p. p / sum_list probs) probs) r) = Inr (x, r1)"
      by blast
    with "1.prems" guard Inr
    have "construct_loop weight n (finsert x visited) (path @ [x]) x (Suc passes) r1 = Inl e"
      by (simp add: construct_loop.simps [of weight n visited] unvisited_def [symmetric])
    from "1.IH" [OF guard(1) unvisited_def guard(2) Inr refl pick refl this]
    show ?thesis .
  qed
qed

lemma float_pow_one: "float_pow x 1 = Inr x"
  by (simp add: float_pow_def)

lemma float_pow_two: "float_pow x 2 = Inr (x ^ 2)"
  by (simp add: float_pow_def)

lemma float_pow_pos:
  assumes "0 < x"
  shows "float_pow x y = Inr (x powr y)"
proof (cases "y \<in> \<int>")
  case False
  with assms show ?thesis by (simp add: float_pow_def)
next
  case True
  then obtain k where k: "y = of_int k" by (auto elim: Ints_cases)
  from assms have "x \<noteq> 0" by simp
  with assms k show ?thesis
    by (simp add: float_pow_def powr_real_of_int inverse_eq_divide)
qed

lemma default_prob_error:
  assumes "calculate_transition_prob ph d c node 1 2 = Inl e"
  shows "e = ZeroDivisionError \<and> c \<noteq> node \<and> ph (c, node) \<noteq> None \<and> d (c, node) = Some 0"
  using assms
  by (auto simp: calculate_transition_prob_def float_pow_one float_pow_two
      split: if_splits option.splits)

lemma default_prob_success:
  assumes "d (c, node) \<noteq> Some 0"
  shows "\<exists>v. calculate_transition_prob ph d c node 1 2 = Inr v"
  using assms
  by (auto simp: calculate_transition_prob_def float_pow_one float_pow_two
      split: if_splits option.splits)

lemma zero_distance_prob:
  assumes "c \<noteq> node" "ph (c, node) = Some tau" "d (c, node) = Some 0"
  shows "calculate_transition_prob ph d c node alpha beta = Inl ZeroDivisionError"
  using assms by (simp add: calculate_transition_prob_def)

lemma zero_distance_inline:
  assumes "c \<noteq> node" "d (c, node) = Some 0"
  shows "inline_prob ph d alpha beta c node = Inl ZeroDivisionError"
  using assms by (simp add: inline_prob_def)

lemma randint0_range: "randint0 n r = Inr (c, r') \<Longrightarrow> c < n"
  by (auto simp: randint0_def split: if_splits)

lemma randint0_error: "randint0 n r = Inl e \<Longrightarrow> n = 0 \<and> e = ValueError"
  by (auto simp: randint0_def split: if_splits)


lemma construct_path_passes_error:
  assumes "construct_path_passes ph d n r = Inl e"
  shows "(n = 0 \<and> e = ValueError)
       \<or> (e = ZeroDivisionError \<and> (\<exists>c node. c \<noteq> node \<and> ph (c, node) \<noteq> None \<and> d (c, node) = Some 0))"
proof (cases "randint0 n r")
  case (Inl e')
  with assms have "e' = e" by (simp add: construct_path_passes_def)
  with Inl randint0_error show ?thesis by blast
next
  case (Inr a)
  with assms obtain c r1 where
    "construct_loop (\<lambda>c node. calculate_transition_prob ph d c node 1 2) n {|c|} [c] c 0 r1 = Inl e"
    by (cases a) (simp add: construct_path_passes_def)
  from construct_loop_error [OF this] default_prob_error show ?thesis by blast
qed

lemma construct_path_passes_success:
  assumes "0 < n" and "\<And>key. d key \<noteq> Some 0"
  shows "\<exists>p k r'. construct_path_passes ph d n r = Inr (p, k, r')"
proof -
  from assms(1) obtain c r1 where start: "randint0 n r = Inr (c, r1)"
    by (simp add: randint0_def)
  from randint0_range [OF start] have "c < n" .
  from construct_loop_succeeds [of n "\<lambda>c node. calculate_transition_prob ph d c node 1 2" c,
      OF default_prob_success [OF assms(2)] this]
  show ?thesis by (simp add: construct_path_passes_def start)
qed



lemma construct_loop_stops:
  assumes "weight a b = Inl ea" and "weight b a = Inl eb"
    and "a < n" and "b < n" and "a \<noteq> b"
    and "fset visited \<subseteq> {..<n}"
    and "(a |\<notin>| visited \<and> b |\<notin>| visited) \<or> (current = a \<and> b |\<notin>| visited)
           \<or> (current = b \<and> a |\<notin>| visited)"
  shows "\<exists>e. construct_loop weight n visited path current passes r = Inl e"
  using assms
proof (induction weight n visited path current passes r rule: construct_loop.induct)
  case (1 weight n visited path current passes r)
  define unvisited where "unvisited = filter (\<lambda>i. i |\<notin>| visited) [0..<n]"
  from "1.prems"(3,4,7) obtain m where m: "m < n" "m |\<notin>| visited" by blast
  then have ne: "unvisited \<noteq> []"
    by (auto simp: unvisited_def filter_empty_conv)
  from m "1.prems"(6) have "fset visited \<subset> {..<n}" by auto
  then have "card (fset visited) < card {..<n}"
    by (intro psubset_card_mono) simp_all
  then have guard: "fcard visited < n" by (simp add: fcard.rep_eq)
  show ?case
  proof (cases "transition_probs (weight current) unvisited")
    case (Inl e)
    with guard ne show ?thesis
      by (simp add: construct_loop.simps [of weight n visited] unvisited_def [symmetric])
  next
    case (Inr probs)
    have free: "a |\<notin>| visited \<and> b |\<notin>| visited"
    proof (rule ccontr)
      assume "\<not> ?thesis"
      with "1.prems"(7) consider "current = a" "b |\<notin>| visited" | "current = b" "a |\<notin>| visited"
        by blast
      then have "\<exists>e. transition_probs (weight current) unvisited = Inl e"
      proof cases
        case 1
        with "1.prems"(4) have "b \<in> set unvisited" by (simp add: unvisited_def)
        from transition_probs_fails [OF this] 1 "1.prems"(1) show ?thesis by blast
      next
        case 2
        with "1.prems"(3) have "a \<in> set unvisited" by (simp add: unvisited_def)
        from transition_probs_fails [OF this] 2 "1.prems"(2) show ?thesis by blast
      qed
      with Inr show False by simp
    qed
    from ne pick_succeeds obtain x r1 where
      pick: "(if sum_list probs = 0 then choice unvisited r
              else choices unvisited (map (\<lambda>p. p / sum_list probs) probs) r) = Inr (x, r1)"
      by blast
    from pick_member [OF pick] have x: "x < n" by (simp add: unvisited_def)
    with "1.prems"(6) have sub: "fset (finsert x visited) \<subseteq> {..<n}" by simp
    from free "1.prems"(5) have state: "(a |\<notin>| finsert x visited \<and> b |\<notin>| finsert x visited)
        \<or> (x = a \<and> b |\<notin>| finsert x visited) \<or> (x = b \<and> a |\<notin>| finsert x visited)"
      by auto
    from "1.IH" [OF guard unvisited_def ne Inr refl pick refl "1.prems"(1-5) sub state]
    obtain e where "construct_loop weight n (finsert x visited) (path @ [x]) x (Suc passes) r1 = Inl e"
      by blast
    with guard ne Inr pick show ?thesis
      by (simp add: construct_loop.simps [of weight n visited] unvisited_def [symmetric])
  qed
qed

lemma construct_path_passes_stops:
  assumes "a < n" "b < n" "a \<noteq> b"
    and "ph (a, b) \<noteq> None" "ph (b, a) \<noteq> None"
    and "d (a, b) = Some 0" "d (b, a) = Some 0"
  shows "construct_path_passes ph d n r = Inl ZeroDivisionError"
proof -
  from assms(1) obtain c r1 where start: "randint0 n r = Inr (c, r1)"
    by (simp add: randint0_def)
  from randint0_range [OF start] have c: "fset {|c|} \<subseteq> {..<n}" by simp
  have w: "calculate_transition_prob ph d a b 1 2 = Inl ZeroDivisionError"
    "calculate_transition_prob ph d b a 1 2 = Inl ZeroDivisionError"
    using assms(3-) by (auto simp: zero_distance_prob)
  have "(a |\<notin>| {|c|} \<and> b |\<notin>| {|c|}) \<or> (c = a \<and> b |\<notin>| {|c|}) \<or> (c = b \<and> a |\<notin>| {|c|})"
    using assms(3) by auto
  from construct_loop_stops [of "\<lambda>c node. calculate_transition_prob ph d c node 1 2",
      OF w assms(1,2,3) c this, of "[c]" 0 r1]
  obtain e where "construct_path_passes ph d n r = Inl e"
    by (auto simp: construct_path_passes_def start)
  with construct_path_passes_error [OF this] assms(1) show ?thesis by auto
qed


lemma construct_loop_error_in_range:
  assumes "construct_loop weight n visited path current passes r = Inl e"
    and "current < n"
  shows "\<exists>c node. c < n \<and> node < n \<and> weight c node = Inl e"
  using assms
proof (induction weight n visited path current passes r rule: construct_loop.induct)
  case (1 weight n visited path current passes r)
  define unvisited where "unvisited = filter (\<lambda>i. i |\<notin>| visited) [0..<n]"
  from "1.prems"(1) have guard: "fcard visited < n" "unvisited \<noteq> []"
    by (auto simp: construct_loop.simps [of weight n visited] unvisited_def [symmetric]
        split: if_splits)
  show ?case
  proof (cases "transition_probs (weight current) unvisited")
    case (Inl e')
    with "1.prems"(1) guard have "e' = e"
      by (simp add: construct_loop.simps [of weight n visited] unvisited_def [symmetric])
    with Inl transition_probs_error [of "weight current" unvisited e]
    obtain node where "node \<in> set unvisited" "weight current node = Inl e" by blast
    with "1.prems"(2) show ?thesis by (auto simp: unvisited_def)
  next
    case (Inr probs)
    from guard pick_succeeds obtain x r1 where
      pick: "(if sum_list probs = 0 then choice unvisited r
              else choices unvisited (map (\<lambda>p. p / sum_list probs) probs) r) = Inr (x, r1)"
      by blast
    with "1.prems"(1) guard Inr
    have rec: "construct_loop weight n (finsert x visited) (path @ [x]) x (Suc passes) r1 = Inl e"
      by (simp add: construct_loop.simps [of weight n visited] unvisited_def [symmetric])
    from pick_member [OF pick] have "x < n" by (simp add: unvisited_def)
    from "1.IH" [OF guard(1) unvisited_def guard(2) Inr refl pick refl rec this]
    show ?thesis .
  qed
qed

lemma construct_path_iff:
  "construct_path ph d n r = Inr (p, r') \<longleftrightarrow> (\<exists>k. construct_path_passes ph d n r = Inr (p, k, r'))"
  by (auto simp: construct_path_def split: sum.splits)

lemma construct_path_error_iff:
  "construct_path ph d n r = Inl e \<longleftrightarrow> construct_path_passes ph d n r = Inl e"
  by (auto simp: construct_path_def split: sum.splits)

lemma build_paths_error:
  "ant r = Inl e \<Longrightarrow> 0 < k \<Longrightarrow> build_paths ant k r = Inl e"
  by (cases k) simp_all

lemma cached_distance_same: "cached_distance p p = 0"
  by (simp add: cached_distance_def)

lemma cached_distance_nonneg: "0 \<le> cached_distance p q"
  by (simp add: cached_distance_def Let_def)

lemma ant_path_first_error:
  assumes "ant_path (initialize_pheromones n) (build_distance_matrix_cached points) n alpha beta r = Inl e"
    and "n = length points" and "0 < n"
  shows "e = ZeroDivisionError"
proof -
  from assms(3) obtain c r1 where start: "randint0 n r = Inr (c, r1)"
    by (simp add: randint0_def)
  from randint0_range [OF start] have c: "c < n" .
  from assms(1) start have
    "construct_loop (inline_prob (initialize_pheromones n) (build_distance_matrix_cached points) alpha beta)
       n {|c|} [c] c 0 r1 = Inl e"
    by (auto simp: ant_path_def split: sum.splits prod.splits)
  from construct_loop_error_in_range [OF this c] obtain a b where
    ab: "a < n" "b < n"
    "inline_prob (initialize_pheromones n) (build_distance_matrix_cached points) alpha beta a b = Inl e"
    by blast
  show ?thesis
  proof (cases "cached_distance (points ! a) (points ! b) = 0")
    case True
    with ab assms(2) show ?thesis
      by (auto simp: inline_prob_def build_distance_matrix_cached_lookup split: if_splits)
  next
    case False
    with cached_distance_nonneg [of "points ! a" "points ! b"]
    have "0 < 1 / cached_distance (points ! a) (points ! b)" by simp
    with ab assms(2) False show ?thesis
      by (auto simp: inline_prob_def build_distance_matrix_cached_lookup
          initialize_pheromones_lookup float_pow_pos split: if_splits)
  qed
qed

lemma ant_path_stops:
  assumes "i < length points" "j < length points" "i \<noteq> j" "points ! i = points ! j"
  shows "ant_path (initialize_pheromones (length points)) (build_distance_matrix_cached points)
           (length points) alpha beta r = Inl ZeroDivisionError"
proof -
  let ?n = "length points"
  let ?w = "inline_prob (initialize_pheromones ?n) (build_distance_matrix_cached points) alpha beta"
  from assms(1) obtain c r1 where start: "randint0 ?n r = Inr (c, r1)"
    by (cases points) (simp_all add: randint0_def)
  from randint0_range [OF start] have c: "fset {|c|} \<subseteq> {..<?n}" by simp
  have w: "?w i j = Inl ZeroDivisionError" "?w j i = Inl ZeroDivisionError"
    using assms
    by (simp_all add: zero_distance_inline build_distance_matrix_cached_lookup cached_distance_same)
  have "(i |\<notin>| {|c|} \<and> j |\<notin>| {|c|}) \<or> (c = i \<and> j |\<notin>| {|c|}) \<or> (c = j \<and> i |\<notin>| {|c|})"
    using assms(3) by auto
  from construct_loop_stops [of ?w, OF w assms(1,2,3) c this, of "[c]" 0 r1]
  obtain e where e: "ant_path (initialize_pheromones ?n) (build_distance_matrix_cached points) ?n alpha beta r = Inl e"
    by (auto simp: ant_path_def start)
  from ant_path_first_error [OF e refl] assms(1) have "e = ZeroDivisionError" by (cases points) simp_all
  with e show ?thesis by simp
qed

lemma optimizer_stops:
  assumes "i < length points" "j < length points" "i \<noteq> j" "points ! i = points ! j"
    and "0 < iterations" "0 < ants"
  shows "ant_colony_optimization_simple points iterations ants alpha beta evaporation q r
           = Inl ZeroDivisionError"
proof -
  from assms(5) obtain k where k: "nat iterations = Suc k"
    by (cases "nat iterations") simp_all
  from assms(6) have "0 < nat ants" by simp
  from build_paths_error [of "ant_path (initialize_pheromones (length points))
        (build_distance_matrix_cached points) (length points) alpha beta" r ZeroDivisionError "nat ants",
      OF ant_path_stops [OF assms(1-4)] this]
  show ?thesis
    by (simp add: ant_colony_optimization_simple_def Let_def k iteration_def)
qed






lemma two_points_no_zero:
  "build_distance_matrix_cached [(0, 0, 0), (1, 0, 0)] key \<noteq> Some 0"
proof (cases key)
  case (Pair i j)
  have "cached_distance ([(0, 0, 0), (1, 0, 0)] ! i) ([(0, 0, 0), (1, 0, 0)] ! j) \<noteq> 0"
    if "i < 2" "j < 2" "i \<noteq> j"
    using that by (auto simp: cached_distance_def less_2_cases_iff)
  with Pair show ?thesis
    by (simp add: build_distance_matrix_cached_lookup)
qed

text \<open>
  Claim C8.  The code has no guard for a zero distance: \<^verbatim>\<open>1.0 / distances[(current, next_node)]\<close>
  raises \<^verbatim>\<open>ZeroDivisionError\<close>, which \<^verbatim>\<open>except KeyError\<close> does not catch.  So a weight between
  two distinct nodes at distance zero raises (in both variants); every tour construction
  over a table with such a pair raises, whatever the random source; and the optimizer of
  task 3\_3 raises in its first iteration on any point list with two coincident points.
  Only when no distance is zero do all weights exist and does the construction complete.
\<close>

theorem zero_distance_raises:
  "(c \<noteq> node \<and> ph (c, node) \<noteq> None \<and> d (c, node) = Some 0
      \<longrightarrow> calculate_transition_prob ph d c node alpha beta = Inl ZeroDivisionError)
   \<and> (c \<noteq> node \<and> d (c, node) = Some 0
      \<longrightarrow> inline_prob ph d alpha beta c node = Inl ZeroDivisionError)
   \<and> (a < n \<and> b < n \<and> a \<noteq> b \<and> ph (a, b) \<noteq> None \<and> ph (b, a) \<noteq> None
        \<and> d (a, b) = Some 0 \<and> d (b, a) = Some 0
      \<longrightarrow> construct_path ph d n r = Inl ZeroDivisionError)
   \<and> (i < length points \<and> j < length points \<and> i \<noteq> j \<and> points ! i = points ! j
        \<and> 0 < iterations \<and> 0 < ants
      \<longrightarrow> ant_colony_optimization_simple points iterations ants alpha beta evaporation q r
            = Inl ZeroDivisionError)
   \<and> (0 < n \<and> (\<forall>key. d key \<noteq> Some 0)
      \<longrightarrow> (\<forall>x y. \<exists>v. calculate_transition_prob ph d x y 1 2 = Inr v)
          \<and> (\<exists>path r'. construct_path ph d n r = Inr (path, r')))"
proof -
  have weight: "calculate_transition_prob ph d c node alpha beta = Inl ZeroDivisionError"
    if "c \<noteq> node \<and> ph (c, node) \<noteq> None \<and> d (c, node) = Some 0"
    using that by (auto simp: zero_distance_prob)
  have inline: "inline_prob ph d alpha beta c node = Inl ZeroDivisionError"
    if "c \<noteq> node \<and> d (c, node) = Some 0"
    using that by (simp add: zero_distance_inline)
  have tour: "construct_path ph d n r = Inl ZeroDivisionError"
    if "a < n \<and> b < n \<and> a \<noteq> b \<and> ph (a, b) \<noteq> None \<and> ph (b, a) \<noteq> None
        \<and> d (a, b) = Some 0 \<and> d (b, a) = Some 0"
    using that construct_path_passes_stops [of a n b ph d r]
    by (simp add: construct_path_error_iff)
  have run: "ant_colony_optimization_simple points iterations ants alpha beta evaporation q r
            = Inl ZeroDivisionError"
    if "i < length points \<and> j < length points \<and> i \<noteq> j \<and> points ! i = points ! j
        \<and> 0 < iterations \<and> 0 < ants"
    using that optimizer_stops [of i points j iterations ants] by simp
  have fine: "(\<forall>x y. \<exists>v. calculate_transition_prob ph d x y 1 2 = Inr v)
          \<and> (\<exists>path r'. construct_path ph d n r = Inr (path, r'))"
    if "0 < n \<and> (\<forall>key. d key \<noteq> Some 0)"
  proof -
    from that have "0 < n" "\<And>key. d key \<noteq> Some 0" by blast+
    from construct_path_passes_success [where d = d and ph = ph and r = r, OF this]
      default_prob_success [of d _ _ ph, OF this(2)]
    show ?thesis by (auto simp: construct_path_iff)
  qed
  from weight inline tour run fine show ?thesis by blast
qed

theorem zero_distance_raises_witness:
  "build_distance_matrix_cached [(5, 5, 5), (5, 5, 5)] (0, 1) = Some 0
   \<and> calculate_transition_prob (initialize_pheromones 2)
        (build_distance_matrix_cached [(5, 5, 5), (5, 5, 5)]) 0 1 1 2 = Inl ZeroDivisionError
   \<and> construct_path (initialize_pheromones 2)
        (build_distance_matrix_cached [(5, 5, 5), (5, 5, 5)]) 2 (\<lambda>_. 0) = Inl ZeroDivisionError
   \<and> ant_colony_optimization_simple [(5, 5, 5), (5, 5, 5)] 50 20 1 2 (1 / 10) 100 (\<lambda>_. 0)
        = Inl ZeroDivisionError
   \<and> (\<exists>path r'. construct_path (initialize_pheromones 2)
          (build_distance_matrix_cached [(0, 0, 0), (1, 0, 0)]) 2 (\<lambda>_. 0) = Inr (path, r'))"
proof -
  note T = zero_distance_raises [where ph = "initialize_pheromones 2" and n = 2 and r = "\<lambda>_. 0"
      and c = 0 and node = 1 and a = 0 and b = 1 and alpha = 1 and beta = 2
      and points = "[(5, 5, 5), (5, 5, 5)]" and i = 0 and j = 1
      and iterations = 50 and ants = 20 and evaporation = "1 / 10" and q = 100]
  have d: "build_distance_matrix_cached [(5, 5, 5), (5, 5, 5)] (0, 1) = Some 0"
    "build_distance_matrix_cached [(5, 5, 5), (5, 5, 5)] (1, 0) = Some 0"
    by (simp_all add: build_distance_matrix_cached_lookup cached_distance_def)
  have ph: "initialize_pheromones 2 (0, 1) \<noteq> None" "initialize_pheromones 2 (1, 0) \<noteq> None"
    by (simp_all add: initialize_pheromones_lookup)
  have pts: "(0::nat) < length [(5::real, 5::real, 5::real), (5, 5, 5)]"
    "(1::nat) < length [(5::real, 5::real, 5::real), (5, 5, 5)]"
    "[(5::real, 5::real, 5::real), (5, 5, 5)] ! 0 = [(5, 5, 5), (5, 5, 5)] ! 1"
    by simp_all
  from T [where d = "build_distance_matrix_cached [(5, 5, 5), (5, 5, 5)]"] d ph pts
  have "calculate_transition_prob (initialize_pheromones 2)
        (build_distance_matrix_cached [(5, 5, 5), (5, 5, 5)]) 0 1 1 2 = Inl ZeroDivisionError"
    "construct_path (initialize_pheromones 2)
        (build_distance_matrix_cached [(5, 5, 5), (5, 5, 5)]) 2 (\<lambda>_. 0) = Inl ZeroDivisionError"
    "ant_colony_optimization_simple [(5, 5, 5), (5, 5, 5)] 50 20 1 2 (1 / 10) 100 (\<lambda>_. 0)
        = Inl ZeroDivisionError"
    by simp_all
  moreover from T [where d = "build_distance_matrix_cached [(0, 0, 0), (1, 0, 0)]"] two_points_no_zero
  have "\<exists>path r'. construct_path (initialize_pheromones 2)
          (build_distance_matrix_cached [(0, 0, 0), (1, 0, 0)]) 2 (\<lambda>_. 0) = Inr (path, r')"
    by simp
  ultimately show ?thesis using d by blast
qed



section \<open>Properties of the optimizer\<close>

lemma xle_refl: "xle a a"
  by (cases a) simp_all

lemma xle_trans: "xle a b \<Longrightarrow> xle b c \<Longrightarrow> xle a c"
  by (cases a; cases b; cases c) simp_all

lemma xless_imp_xle: "xless a b \<Longrightarrow> xle a b"
  by (cases a; cases b) simp_all



lemma xless_irrefl: "\<not> xless a a"
  by (cases a) simp_all



lemma min_by_nonempty: "xs \<noteq> [] \<Longrightarrow> \<exists>b. min_by key xs = Inr b"
  by (cases xs) simp_all


lemma iteration_unfold:
  assumes "iteration distances n ants alpha beta rho q s r = Inr (s', r')"
  shows "\<exists>all_paths best.
           build_paths (ant_path (pheromone s) distances n alpha beta) (nat ants) r = Inr (all_paths, r')
         \<and> min_by (\<lambda>path. path_length path distances) all_paths = Inr best
         \<and> pheromone s' = reinforce (evaporate (pheromone s) rho) best q (path_length best distances)
         \<and> (if xless (path_length best distances) (best_length_overall s)
              then best_length_overall s' = path_length best distances \<and> best_path_overall s' = Some best
              else best_length_overall s' = best_length_overall s \<and> best_path_overall s' = best_path_overall s)"
proof (cases "build_paths (ant_path (pheromone s) distances n alpha beta) (nat ants) r")
  case (Inl e)
  with assms show ?thesis by (simp add: iteration_def)
next
  case (Inr a)
  obtain all_paths r1 where a: "a = (all_paths, r1)" by (cases a)
  show ?thesis
  proof (cases "min_by (\<lambda>path. path_length path distances) all_paths")
    case (Inl e)
    with assms Inr a show ?thesis by (simp add: iteration_def)
  next
    case best: (Inr best)
    show ?thesis
    proof (cases "xless (path_length best distances) (best_length_overall s)")
      case True
      with assms Inr a best have
        "s' = s\<lparr>best_length_overall := path_length best distances, best_path_overall := Some best,
               pheromone := reinforce (evaporate (pheromone s) rho) best q (path_length best distances)\<rparr>"
        "r' = r1"
        by (simp_all add: iteration_def Let_def)
      with Inr a best True show ?thesis by simp
    next
      case False
      with assms Inr a best have
        "s' = s\<lparr>pheromone := reinforce (evaporate (pheromone s) rho) best q (path_length best distances)\<rparr>"
        "r' = r1"
        by (simp_all add: iteration_def Let_def)
      with Inr a best False show ?thesis by simp
    qed
  qed
qed

lemma iteration_monotone:
  assumes "iteration distances n ants alpha beta rho q s r = Inr (s', r')"
  shows "xle (best_length_overall s') (best_length_overall s)"
    and "best_length_overall s' \<noteq> best_length_overall s
           \<Longrightarrow> xless (best_length_overall s') (best_length_overall s)
               \<and> (\<exists>p. best_path_overall s' = Some p \<and> best_length_overall s' = path_length p distances)"
proof -
  from iteration_unfold [OF assms] obtain best where
    upd: "if xless (path_length best distances) (best_length_overall s)
              then best_length_overall s' = path_length best distances \<and> best_path_overall s' = Some best
              else best_length_overall s' = best_length_overall s \<and> best_path_overall s' = best_path_overall s"
    by blast
  show "xle (best_length_overall s') (best_length_overall s)"
    using upd by (auto simp: xle_refl xless_imp_xle split: if_splits)
  show "xless (best_length_overall s') (best_length_overall s)
               \<and> (\<exists>p. best_path_overall s' = Some p \<and> best_length_overall s' = path_length p distances)"
    if "best_length_overall s' \<noteq> best_length_overall s"
    using upd that by (auto split: if_splits)
qed

lemma run_iterations_add:
  "run_iterations step (j + m) s r =
     (case run_iterations step j s r of Inl e \<Rightarrow> Inl e | Inr (s', r') \<Rightarrow> run_iterations step m s' r')"
  by (induction j arbitrary: s r) (auto split: sum.splits)

lemma run_iterations_monotone:
  assumes "run_iterations (iteration distances n ants alpha beta rho q) m s r = Inr (s', r')"
  shows "xle (best_length_overall s') (best_length_overall s)"
  using assms
proof (induction m arbitrary: s r)
  case 0
  then show ?case by (simp add: xle_refl)
next
  case (Suc m)
  from Suc.prems obtain s1 r1 where
    step: "iteration distances n ants alpha beta rho q s r = Inr (s1, r1)"
    and rest: "run_iterations (iteration distances n ants alpha beta rho q) m s1 r1 = Inr (s', r')"
    by (auto split: sum.splits)
  from iteration_monotone(1) [OF step] Suc.IH [OF rest] show ?case
    by (blast intro: xle_trans)
qed

lemma cached_distance_zero_iff: "cached_distance p q = 0 \<longleftrightarrow> p = q"
proof -
  have sq: "x * x + y * y + z * z = 0 \<longleftrightarrow> x = 0 \<and> y = 0 \<and> z = 0" for x y z :: real
  proof
    assume e: "x * x + y * y + z * z = 0"
    have "0 \<le> x * x" "0 \<le> y * y" "0 \<le> z * z" by simp_all
    with e have "x * x = 0" "y * y = 0" "z * z = 0" by linarith+
    then show "x = 0 \<and> y = 0 \<and> z = 0" by simp
  qed simp
  have "cached_distance p q = 0 \<longleftrightarrow>
      (fst p - fst q) * (fst p - fst q) + (fst (snd p) - fst (snd q)) * (fst (snd p) - fst (snd q))
        + (snd (snd p) - snd (snd q)) * (snd (snd p) - snd (snd q)) = 0"
    by (simp only: cached_distance_def Let_def real_sqrt_eq_zero_cancel_iff)
  also have "\<dots> \<longleftrightarrow> fst p - fst q = 0 \<and> fst (snd p) - fst (snd q) = 0 \<and> snd (snd p) - snd (snd q) = 0"
    by (rule sq)
  also have "\<dots> \<longleftrightarrow> p = q"
    by (simp add: prod_eq_iff)
  finally show ?thesis .
qed


lemma inline_prob_succeeds:
  assumes "positive_table (length points) ph" and "distinct points"
    and "c < length points" and "node < length points"
  shows "\<exists>v. inline_prob ph (build_distance_matrix_cached points) alpha beta c node = Inr v"
proof (cases "c = node")
  case True
  then show ?thesis by (simp add: inline_prob_def)
next
  case False
  with assms(2-4) have "points ! c \<noteq> points ! node"
    by (simp add: nth_eq_iff_index_eq)
  then have "cached_distance (points ! c) (points ! node) \<noteq> 0"
    by (simp add: cached_distance_zero_iff)
  with cached_distance_nonneg [of "points ! c" "points ! node"]
  have dpos: "0 < cached_distance (points ! c) (points ! node)" by simp
  from assms(1) have "case ph (c, node) of
      None \<Rightarrow> \<not> (c < length points \<and> node < length points \<and> c \<noteq> node)
    | Some v \<Rightarrow> c < length points \<and> node < length points \<and> c \<noteq> node \<and> 0 < v"
    unfolding positive_table_def by blast
  with False assms(3,4) obtain tau where tau: "ph (c, node) = Some tau" "0 < tau"
    by (cases "ph (c, node)") auto
  from dpos tau False assms(3,4) show ?thesis
    by (simp add: inline_prob_def build_distance_matrix_cached_lookup float_pow_pos)
qed

lemma ant_path_succeeds:
  assumes "positive_table (length points) ph" and "distinct points" and "points \<noteq> []"
  shows "\<exists>p r'. ant_path ph (build_distance_matrix_cached points) (length points) alpha beta r = Inr (p, r')"
proof -
  from assms(3) obtain c r1 where start: "randint0 (length points) r = Inr (c, r1)"
    by (simp add: randint0_def)
  from randint0_range [OF start] have c: "c < length points" .
  from construct_loop_succeeds [of "length points"
      "inline_prob ph (build_distance_matrix_cached points) alpha beta" c "{|c|}" "[c]" 0 r1,
      OF inline_prob_succeeds [OF assms(1,2)] c]
  show ?thesis by (auto simp: ant_path_def start)
qed

lemma build_paths_succeeds:
  assumes "\<And>r. \<exists>p r'. ant r = Inr (p, r')"
  shows "\<exists>ps r'. build_paths ant k r = Inr (ps, r') \<and> length ps = k"
proof (induction k arbitrary: r)
  case 0
  then show ?case by simp
next
  case (Suc k)
  from assms obtain p r1 where "ant r = Inr (p, r1)" by blast
  moreover from Suc.IH obtain ps r2 where "build_paths ant k r1 = Inr (ps, r2)" "length ps = k"
    by blast
  ultimately show ?case by simp
qed

lemma iteration_succeeds:
  assumes "positive_table (length points) (pheromone s)" and "distinct points" and "points \<noteq> []"
    and "0 < ants"
  shows "\<exists>s' r'. iteration (build_distance_matrix_cached points) (length points) ants alpha beta rho q s r
           = Inr (s', r')"
proof -
  from build_paths_succeeds [of "ant_path (pheromone s) (build_distance_matrix_cached points)
      (length points) alpha beta" "nat ants" r, OF ant_path_succeeds [OF assms(1-3)]]
  obtain ps r1 where ps: "build_paths (ant_path (pheromone s) (build_distance_matrix_cached points)
      (length points) alpha beta) (nat ants) r = Inr (ps, r1)" "length ps = nat ants"
    by blast
  with assms(4) have "ps \<noteq> []" by auto
  from min_by_nonempty [OF this] obtain b where
    "min_by (\<lambda>path. path_length path (build_distance_matrix_cached points)) ps = Inr b" by blast
  with ps show ?thesis by (simp add: iteration_def Let_def)
qed

lemma run_iterations_succeeds:
  assumes "positive_table (length points) (pheromone s)" and "distinct points" and "points \<noteq> []"
    and "0 < ants" and "0 \<le> rho" "rho < 1" "0 \<le> q"
  shows "\<exists>s' r'. run_iterations (iteration (build_distance_matrix_cached points) (length points)
            ants alpha beta rho q) k s r = Inr (s', r')"
  using assms(1)
proof (induction k arbitrary: s r)
  case 0
  then show ?case by simp
next
  case (Suc k)
  from iteration_succeeds [OF Suc.prems assms(2-4)] obtain s1 r1 where
    step: "iteration (build_distance_matrix_cached points) (length points) ants alpha beta rho q s r
           = Inr (s1, r1)" by blast
  from positive_iteration [OF step assms(5-7) Suc.prems] have "positive_table (length points) (pheromone s1)" .
  from Suc.IH [OF this, of r1] step show ?case by simp
qed

lemma two_points_distinct: "distinct [(0::real, 0::real, 0::real), (1, 0, 0)]"
  by simp



text \<open>
  Claim C2.  One iteration of the optimizer never increases the best length so far: the
  new value is less than or equal to the old one, and when it differs it is strictly
  smaller and is the length of the newly recorded best tour.  Hence, along one run, the
  best length after \<open>j + m\<close> iterations is at most the best length after \<open>j\<close> iterations;
  the run starts from \<open>+\<infinity>\<close> and returns the best length of its last state.
\<close>

theorem best_length_monotone:
  "(\<forall>s' r'. iteration distances n ants alpha beta rho q s r = Inr (s', r')
       \<longrightarrow> xle (best_length_overall s') (best_length_overall s)
           \<and> (best_length_overall s' \<noteq> best_length_overall s
                \<longrightarrow> xless (best_length_overall s') (best_length_overall s)
                    \<and> (\<exists>p. best_path_overall s' = Some p
                           \<and> best_length_overall s' = path_length p distances)))
   \<and> (\<forall>j m sj rj sk rk.
          run_iterations (iteration distances n ants alpha beta rho q) j s r = Inr (sj, rj)
          \<and> run_iterations (iteration distances n ants alpha beta rho q) (j + m) s r = Inr (sk, rk)
       \<longrightarrow> xle (best_length_overall sk) (best_length_overall sj))
   \<and> (\<forall>best len r'.
          ant_colony_optimization_simple points iterations ants alpha beta rho q r = Inr ((best, len), r')
       \<longrightarrow> (\<exists>s'. run_iterations
                    (iteration (build_distance_matrix_cached points) (length points) ants alpha beta rho q)
                    (nat iterations)
                    \<lparr>pheromone = initialize_pheromones (length points), best_path_overall = None,
                     best_length_overall = PInf\<rparr> r = Inr (s', r')
                 \<and> len = best_length_overall s' \<and> best = best_path_overall s'))"
proof -
  have step: "xle (best_length_overall s') (best_length_overall s)
           \<and> (best_length_overall s' \<noteq> best_length_overall s
                \<longrightarrow> xless (best_length_overall s') (best_length_overall s)
                    \<and> (\<exists>p. best_path_overall s' = Some p
                           \<and> best_length_overall s' = path_length p distances))"
    if "iteration distances n ants alpha beta rho q s r = Inr (s', r')" for s' r'
    using iteration_monotone [OF that] by blast
  have run: "xle (best_length_overall sk) (best_length_overall sj)"
    if "run_iterations (iteration distances n ants alpha beta rho q) j s r = Inr (sj, rj)
          \<and> run_iterations (iteration distances n ants alpha beta rho q) (j + m) s r = Inr (sk, rk)"
    for j m sj rj sk rk
  proof -
    from that have "run_iterations (iteration distances n ants alpha beta rho q) m sj rj = Inr (sk, rk)"
      by (auto simp: run_iterations_add)
    then show ?thesis by (rule run_iterations_monotone)
  qed
  have whole: "\<exists>s'. run_iterations
                    (iteration (build_distance_matrix_cached points) (length points) ants alpha beta rho q)
                    (nat iterations)
                    \<lparr>pheromone = initialize_pheromones (length points), best_path_overall = None,
                     best_length_overall = PInf\<rparr> r = Inr (s', r')
                 \<and> len = best_length_overall s' \<and> best = best_path_overall s'"
    if "ant_colony_optimization_simple points iterations ants alpha beta rho q r = Inr ((best, len), r')"
    for best len r'
    using that unfolding ant_colony_optimization_simple_def Let_def
    by (auto split: sum.splits)
  from step run whole show ?thesis by blast
qed

theorem best_length_monotone_witness:
  "\<exists>s1 r1 s3 r3.
      run_iterations (iteration (build_distance_matrix_cached [(0, 0, 0), (1, 0, 0)]) 2 3 1 2 (1 / 10) 100) 1
        \<lparr>pheromone = initialize_pheromones 2, best_path_overall = None, best_length_overall = PInf\<rparr>
        (\<lambda>k. k) = Inr (s1, r1)
    \<and> run_iterations (iteration (build_distance_matrix_cached [(0, 0, 0), (1, 0, 0)]) 2 3 1 2 (1 / 10) 100) (1 + 2)
        \<lparr>pheromone = initialize_pheromones 2, best_path_overall = None, best_length_overall = PInf\<rparr>
        (\<lambda>k. k) = Inr (s3, r3)
    \<and> xle (best_length_overall s3) (best_length_overall s1)"
proof -
  let ?step = "iteration (build_distance_matrix_cached [(0, 0, 0), (1, 0, 0)]) 2 3 1 2 (1 / 10) 100"
  let ?s0 = "\<lparr>pheromone = initialize_pheromones 2, best_path_overall = None, best_length_overall = PInf\<rparr>"
  have len: "length [(0::real, 0::real, 0::real), (1, 0, 0)] = 2" by simp
  have pos: "positive_table (length [(0::real, 0::real, 0::real), (1, 0, 0)]) (pheromone ?s0)"
    unfolding len using positive_initialize [of 2] by simp
  have ok: "\<exists>s' r'. run_iterations ?step k ?s0 (\<lambda>k. k) = Inr (s', r')" for k
    using run_iterations_succeeds [OF pos two_points_distinct, of 3 "1 / 10" 100 1 2 k "\<lambda>k. k",
        unfolded len]
    by simp
  from ok [of 1] obtain s1 r1 where 1: "run_iterations ?step 1 ?s0 (\<lambda>k. k) = Inr (s1, r1)" by blast
  from ok [of "1 + 2"] obtain s3 r3 where 3: "run_iterations ?step (1 + 2) ?s0 (\<lambda>k. k) = Inr (s3, r3)"
    by blast
  from best_length_monotone [of "build_distance_matrix_cached [(0, 0, 0), (1, 0, 0)]" 2 3 1 2 "1 / 10" 100
      ?s0 "\<lambda>k. k"] 1 3
  have "xle (best_length_overall s3) (best_length_overall s1)" by blast
  with 1 3 show ?thesis by blast
qed








end
